theory Spec2Isabelle
  imports Main "HOL-Library.Multiset"
begin

section \<open>The card game state of cards.js\<close>

text \<open>
  A card is a JavaScript object; the game refers to it by identity. The model keeps the
  card objects in a store indexed by a reference (a natural number), so that two fields
  holding the same card hold the same reference. The optional fields \<open>pile\<close>,
  \<open>stacked_on\<close> and \<open>stack\<close> are absent (\<open>None\<close>) or present; an empty array is a
  present \<open>stack\<close> (an array is truthy in JavaScript, whatever its length).

  Of the page, the model keeps what the operations depend on: which \<open>cards_element\<close> the
  element of a card is a child of, and the order of the children. CSS classes, the
  controls of a pile and the faces of the cards are not part of the model.
\<close>

type_synonym card_ref = nat
type_synonym pile_id = string

text \<open>
  A \<open>cards_element\<close> is the \<open>div\<close> that \<open>create_pile\<close> makes for the cards of a pile. Each
  call makes a new one, also for an id that was used before: a node is the id together
  with the number of nodes made before it.
\<close>

type_synonym dom_node = "pile_id \<times> nat"

record card =
  card_type :: string
  face_up :: bool
  pile :: "pile_id option"
  stacked_on :: "card_ref option"
  stack :: "card_ref list option"

text \<open>
  \<open>piles\<close> maps a pile id to the \<open>items\<close> array of the pile object, \<open>pile_groups\<close> maps a
  pile id to the list of pile groups it is in. \<open>console\<close> collects the messages written
  with \<open>console.error\<close>. \<open>cards_element\<close> gives the \<open>cards_element\<close> of the pile object
  under an id. \<open>dom_parent\<close> is \<open>card.element.parentNode\<close> (\<open>None\<close> for an element that is
  not in the page), \<open>dom_children\<close> lists the card elements under a node in document
  order, and \<open>dom_created\<close> counts the nodes made so far.
\<close>

record game =
  cards :: "card_ref \<Rightarrow> card"
  piles :: "pile_id \<rightharpoonup> card_ref list"
  pile_groups :: "pile_id \<rightharpoonup> string list"
  console :: "string list"
  cards_element :: "pile_id \<Rightarrow> dom_node"
  dom_parent :: "card_ref \<Rightarrow> dom_node option"
  dom_children :: "dom_node \<Rightarrow> card_ref list"
  dom_created :: nat

text \<open>
  Exceptions. \<open>RangeError\<close> is what a JavaScript engine throws when the recursion is
  deeper than its call stack; the recursive functions below take the depth they may
  use as their first argument. \<open>NotFoundError\<close> is the DOMException of \<open>insertBefore\<close>.
\<close>

datatype error =
    Error string
  | InternalError string
  | TypeError
  | RangeError
  | ReferenceError
  | NotFoundError

text \<open>
  An operation mutates the game in place and may throw: its outcome is the exception, if
  any, and the state at that moment (mutations made before a throw stay).
\<close>

type_synonym outcome = "error option \<times> game"

definition then_do :: "outcome \<Rightarrow> (game \<Rightarrow> outcome) \<Rightarrow> outcome" where
  "then_do r f = (case r of (Some e, s) \<Rightarrow> (Some e, s) | (None, s) \<Rightarrow> f s)"

definition update_card :: "card_ref \<Rightarrow> (card \<Rightarrow> card) \<Rightarrow> game \<Rightarrow> game" where
  "update_card c f s = s\<lparr>cards := (cards s)(c := f (cards s c))\<rparr>"

definition set_items :: "pile_id \<Rightarrow> card_ref list \<Rightarrow> game \<Rightarrow> game" where
  "set_items p xs s = s\<lparr>piles := (piles s)(p \<mapsto> xs)\<rparr>"

text \<open>\<open>if (card.pile)\<close>: an absent pile and the empty string are falsy.\<close>

definition truthy :: "pile_id option \<Rightarrow> bool" where
  "truthy p = (case p of None \<Rightarrow> False | Some i \<Rightarrow> i \<noteq> [])"

text \<open>\<open>this.piles[x]\<close>: the property key of \<open>undefined\<close> is the string "undefined".\<close>

definition pile_key :: "pile_id option \<Rightarrow> pile_id" where
  "pile_key p = (case p of None \<Rightarrow> ''undefined'' | Some i \<Rightarrow> i)"

text \<open>\<open>array.indexOf(item)\<close>: the first index of the item, or -1.\<close>

fun index_of :: "'a list \<Rightarrow> 'a \<Rightarrow> int" where
  "index_of [] x = -1"
| "index_of (y # ys) x = (if y = x then 0 else (let r = index_of ys x in if r < 0 then -1 else r + 1))"

text \<open>\<open>array.splice(at, 0, item)\<close>; \<open>None\<close> is NaN, which splice reads as 0.\<close>

definition splice_in :: "int option \<Rightarrow> 'a \<Rightarrow> 'a list \<Rightarrow> 'a list" where
  "splice_in at x xs = (case at of None \<Rightarrow> x # xs
     | Some k \<Rightarrow> take (nat k) xs @ x # drop (nat k) xs)"

subsection \<open>Card elements in the page\<close>

text \<open>An element leaves its parent, if it has one.\<close>

definition detach_element :: "card_ref \<Rightarrow> game \<Rightarrow> game" where
  "detach_element c s =
     (case dom_parent s c of None \<Rightarrow> s
      | Some n \<Rightarrow> s\<lparr>dom_parent := (dom_parent s)(c := None),
                       dom_children := (dom_children s)(n := remove1 c (dom_children s n))\<rparr>)"

text \<open>
  \<open>card.element.parentNode.removeChild(card.element)\<close>: the \<open>parentNode\<close> of an element
  that is not in the page is \<open>null\<close>, and the call on it throws a TypeError.
\<close>

definition removeChild :: "card_ref \<Rightarrow> game \<Rightarrow> outcome" where
  "removeChild c s =
     (case dom_parent s c of None \<Rightarrow> (Some TypeError, s)
      | Some n \<Rightarrow> (None, detach_element c s))"

text \<open>\<open>node.appendChild(card.element)\<close> moves the element from where it is to the end.\<close>

definition appendChild :: "dom_node \<Rightarrow> card_ref \<Rightarrow> game \<Rightarrow> game" where
  "appendChild n c s =
     (let s1 = detach_element c s in
      s1\<lparr>dom_parent := (dom_parent s1)(c \<mapsto> n),
         dom_children := (dom_children s1)(n := dom_children s1 n @ [c])\<rparr>)"

text \<open>\<open>card.element.nextSibling\<close>, \<open>None\<close> for \<open>null\<close>.\<close>

definition nextSibling :: "game \<Rightarrow> card_ref \<Rightarrow> card_ref option" where
  "nextSibling s c =
     (case dom_parent s c of None \<Rightarrow> None
      | Some n \<Rightarrow> (case dropWhile (\<lambda>x. x \<noteq> c) (dom_children s n) of
                     x # y # rest \<Rightarrow> Some y
                   | _ \<Rightarrow> None))"

text \<open>
  \<open>node.insertBefore(card.element, reference)\<close>. With \<open>null\<close> as the reference it appends.
  A reference that is not a child of \<open>node\<close> is refused with a NotFoundError before
  anything moves. A reference that is the element itself stands for its next sibling,
  so the element stays where it is.
\<close>

definition insertBefore :: "dom_node \<Rightarrow> card_ref \<Rightarrow> card_ref option \<Rightarrow> game \<Rightarrow> outcome" where
  "insertBefore n c reference s =
     (case reference of None \<Rightarrow> (None, appendChild n c s)
      | Some r \<Rightarrow>
          if dom_parent s r \<noteq> Some n then (Some NotFoundError, s)
          else if r = c then (None, s)
          else (let s1 = detach_element c s; kids = dom_children s1 n in
                (None, s1\<lparr>dom_parent := (dom_parent s1)(c \<mapsto> n),
                          dom_children := (dom_children s1)
                            (n := takeWhile (\<lambda>x. x \<noteq> r) kids @ c # dropWhile (\<lambda>x. x \<noteq> r) kids)\<rparr>)))"

fun append_all :: "dom_node \<Rightarrow> card_ref list \<Rightarrow> game \<Rightarrow> game" where
  "append_all n [] s = s"
| "append_all n (c # rest) s = append_all n rest (appendChild n c s)"

subsection \<open>Library\<close>

record 'p card_data_entry =
  entry_id :: string
  face :: string
  properties :: 'p

record 'p library =
  name :: string
  card_data :: "string \<rightharpoonup> 'p card_data_entry"
  all_cards :: "string list"
  group_data :: "string \<rightharpoonup> string list"
  all_groups :: "string list"

definition register_card :: "string \<Rightarrow> string \<Rightarrow> 'p \<Rightarrow> 'p library \<Rightarrow> error + 'p library" where
  "register_card card_type_id face_html props lib =
     (if card_type_id \<in> dom (card_data lib)
      then Inl (Error (''Card ID '' @ card_type_id @ '' is already registered in this library.''))
      else Inr (lib\<lparr>all_cards := all_cards lib @ [card_type_id],
                     card_data := (card_data lib)(card_type_id \<mapsto>
                        \<lparr>entry_id = card_type_id, face = face_html, properties = props\<rparr>)\<rparr>))"

text \<open>
  The guard of \<open>create_group\<close> is \<open>Object.hasOwnProperty(this.group_data, group_id)\<close>.
  That calls \<open>Object.prototype.hasOwnProperty\<close> with the constructor \<open>Object\<close> as the
  receiver and \<open>this.group_data\<close> as the property key; \<open>group_id\<close> is a second argument,
  which \<open>hasOwnProperty\<close> ignores. The key of a plain object is the string
  "[object Object]", unless the object has a non-callable own \<open>toString\<close> (a group of
  that name), in which case the conversion throws a TypeError.
\<close>

definition Object_own_properties :: "string list" where
  "Object_own_properties = [''length'', ''name'', ''prototype'', ''assign'',
     ''getOwnPropertyDescriptor'', ''getOwnPropertyDescriptors'', ''getOwnPropertyNames'',
     ''getOwnPropertySymbols'', ''hasOwn'', ''is'', ''preventExtensions'', ''seal'', ''create'',
     ''defineProperties'', ''defineProperty'', ''freeze'', ''getPrototypeOf'',
     ''setPrototypeOf'', ''isExtensible'', ''isFrozen'', ''isSealed'', ''keys'', ''entries'',
     ''fromEntries'', ''values'', ''groupBy'']"

definition to_property_key :: "(string \<rightharpoonup> string list) \<Rightarrow> error + string" where
  "to_property_key obj = (if ''toString'' \<in> dom obj then Inl TypeError else Inr ''[object Object]'')"

definition Object_hasOwnProperty :: "(string \<rightharpoonup> string list) \<Rightarrow> string \<Rightarrow> error + bool" where
  "Object_hasOwnProperty obj ignored =
     (case to_property_key obj of Inl e \<Rightarrow> Inl e | Inr k \<Rightarrow> Inr (k \<in> set Object_own_properties))"

fun collect_group_members :: "('p \<Rightarrow> bool) \<Rightarrow> (string \<rightharpoonup> 'p card_data_entry) \<Rightarrow> string list \<Rightarrow> error + string list" where
  "collect_group_members filter_fn cd [] = Inr []"
| "collect_group_members filter_fn cd (card_type_id # rest) =
     (case cd card_type_id of None \<Rightarrow> Inl TypeError
      | Some entry \<Rightarrow>
         (case collect_group_members filter_fn cd rest of Inl e \<Rightarrow> Inl e
          | Inr ms \<Rightarrow> Inr (if filter_fn (properties entry) then card_type_id # ms else ms)))"

definition create_group :: "string \<Rightarrow> ('p \<Rightarrow> bool) \<Rightarrow> 'p library \<Rightarrow> error + 'p library" where
  "create_group group_id filter_fn lib =
     (case Object_hasOwnProperty (group_data lib) group_id of Inl e \<Rightarrow> Inl e
      | Inr True \<Rightarrow> Inl (Error (''Group '' @ group_id @ '' already exists.''))
      | Inr False \<Rightarrow>
         (case collect_group_members filter_fn (card_data lib) (all_cards lib) of Inl e \<Rightarrow> Inl e
          | Inr members \<Rightarrow>
              Inr (lib\<lparr>all_groups := all_groups lib @ [group_id],
                       group_data := (group_data lib)(group_id \<mapsto> members)\<rparr>)))"

subsection \<open>Piles\<close>

text \<open>
  \<open>create_pile\<close> makes the elements of the pile and stores a pile object with no items
  under the id, in place of any pile object that was there.
\<close>

definition create_pile :: "pile_id \<Rightarrow> game \<Rightarrow> game" where
  "create_pile pile_id s =
     (set_items pile_id [] s)
       \<lparr>cards_element := (cards_element s)(pile_id := (pile_id, dom_created s)),
        dom_children := (dom_children s)((pile_id, dom_created s) := []),
        dom_created := Suc (dom_created s)\<rparr>"

text \<open>\<open>_remove_card_from_pile\<close>\<close>

definition priv_remove_card_from_pile :: "card_ref \<Rightarrow> game \<Rightarrow> outcome" where
  "priv_remove_card_from_pile c s =
     (let prev_pile = pile (cards s c) in
      if truthy prev_pile then
        (case piles s (pile_key prev_pile) of None \<Rightarrow> (Some TypeError, s)
         | Some items \<Rightarrow>
             (case removeChild c (set_items (pile_key prev_pile) (remove1 c items) s) of
                (Some e, s1) \<Rightarrow> (Some e, s1)
              | (None, s1) \<Rightarrow> (None, update_card c (\<lambda>r. r\<lparr>pile := None\<rparr>) s1)))
      else (None, s))"

text \<open>
  \<open>delete_pile\<close> runs \<open>for (let card of this.piles[pile_id].items)\<close> while its body
  removes cards from that same array. The array iterator keeps an index and reads the
  array anew at every step, so the loop is a recursion on the index that looks the array
  up in the current state. It ends because the body never makes the array longer.
\<close>

function delete_pile_loop :: "pile_id \<Rightarrow> nat \<Rightarrow> game \<Rightarrow> outcome" where
  "delete_pile_loop pile_id i s =
     (case piles s pile_id of None \<Rightarrow> (None, s)
      | Some items \<Rightarrow>
          if i < length items then
            (case priv_remove_card_from_pile (items ! i) s of
               (Some e, s') \<Rightarrow> (Some e, s')
             | (None, s') \<Rightarrow> delete_pile_loop pile_id (Suc i) s')
          else (None, s))"
  by pat_completeness auto
termination
  apply (relation "measure (\<lambda>(pile_id, i, s). (case piles s pile_id of None \<Rightarrow> 0 | Some items \<Rightarrow> length items) - i)")
   apply simp
  apply (auto simp: priv_remove_card_from_pile_def removeChild_def detach_element_def Let_def
      set_items_def update_card_def length_remove1
      split: option.splits if_splits)
  done

declare delete_pile_loop.simps [simp del]

text \<open>
  After the loop \<open>delete_pile\<close> takes the element of the pile out of the play area, where
  \<open>create_pile\<close> put it; the elements of the cards that are still in it stay its children.
\<close>

definition delete_pile :: "pile_id \<Rightarrow> game \<Rightarrow> outcome" where
  "delete_pile pile_id s =
     (case piles s pile_id of None \<Rightarrow> (Some TypeError, s)
      | Some items \<Rightarrow>
         then_do (delete_pile_loop pile_id 0 s)
           (\<lambda>s'. (None, s'\<lparr>piles := (piles s')(pile_id := None),
                          pile_groups := (pile_groups s')(pile_id := None)\<rparr>)))"

subsection \<open>The stacking relation\<close>

text \<open>\<open>stack_root(card, orig)\<close>; \<open>orig\<close> is \<open>None\<close> when the argument is omitted.\<close>

fun stack_root :: "nat \<Rightarrow> game \<Rightarrow> card_ref \<Rightarrow> card_ref option \<Rightarrow> card_ref option" where
  "stack_root 0 s c orig = None"
| "stack_root (Suc n) s c orig =
     (case stacked_on (cards s c) of None \<Rightarrow> Some c
      | Some p \<Rightarrow>
          if Some c = orig then Some p
          else stack_root n s p (Some (case orig of None \<Rightarrow> c | Some orig' \<Rightarrow> orig')))"

fun has_stack_ancestor :: "nat \<Rightarrow> game \<Rightarrow> card_ref \<Rightarrow> card_ref \<Rightarrow> bool option" where
  "has_stack_ancestor 0 s c ancestor = None"
| "has_stack_ancestor (Suc n) s c ancestor =
     (if c = ancestor then Some True
      else (case stacked_on (cards s c) of Some p \<Rightarrow> has_stack_ancestor n s p ancestor
            | None \<Rightarrow> Some False))"

text \<open>\<open>_stack_cards\<close> and \<open>_unstack_card\<close>\<close>

definition priv_stack_cards :: "card_ref \<Rightarrow> card_ref \<Rightarrow> game \<Rightarrow> game" where
  "priv_stack_cards card_to_stack stack_onto s =
     (let s1 = update_card card_to_stack (\<lambda>r. r\<lparr>stacked_on := Some stack_onto\<rparr>) s in
      case stack (cards s1 stack_onto) of
        Some st \<Rightarrow> update_card stack_onto (\<lambda>r. r\<lparr>stack := Some (st @ [card_to_stack])\<rparr>) s1
      | None \<Rightarrow> update_card stack_onto (\<lambda>r. r\<lparr>stack := Some [card_to_stack]\<rparr>) s1)"

definition priv_unstack_card :: "card_ref \<Rightarrow> game \<Rightarrow> outcome" where
  "priv_unstack_card c s =
     (case stacked_on (cards s c) of None \<Rightarrow> (None, s)
      | Some so \<Rightarrow>
          (let s1 = update_card c (\<lambda>r. r\<lparr>stacked_on := None\<rparr>) s in
           case stack (cards s1 so) of None \<Rightarrow> (Some TypeError, s1)
           | Some st \<Rightarrow>
               (let s2 = update_card so (\<lambda>r. r\<lparr>stack := Some (remove1 c st)\<rparr>) s1 in
                if length (remove1 c st) = 0
                then (None, update_card so (\<lambda>r. r\<lparr>stack := None\<rparr>) s2)
                else (None, s2))))"

text \<open>\<open>unstack_all_from\<close> iterates over a copy (\<open>slice()\<close>) of the stack.\<close>

fun unstack_each :: "card_ref list \<Rightarrow> game \<Rightarrow> outcome" where
  "unstack_each [] s = (None, s)"
| "unstack_each (in_stack # rest) s =
     (case priv_unstack_card in_stack s of (Some e, s') \<Rightarrow> (Some e, s')
      | (None, s') \<Rightarrow> unstack_each rest s')"

definition unstack_all_from :: "card_ref \<Rightarrow> game \<Rightarrow> outcome" where
  "unstack_all_from stack_base s =
     (case stack (cards s stack_base) of None \<Rightarrow> (None, s)
      | Some st \<Rightarrow> unstack_each st s)"

subsection \<open>Queries\<close>

text \<open>\<open>position_in_pile\<close>: \<open>Inr None\<close> is the result \<open>undefined\<close>.\<close>

definition position_in_pile :: "game \<Rightarrow> card_ref \<Rightarrow> error + int option" where
  "position_in_pile s c =
     (if \<not> truthy (pile (cards s c)) then Inr None
      else (case piles s (pile_key (pile (cards s c))) of None \<Rightarrow> Inl TypeError
            | Some items \<Rightarrow> Inr (Some (index_of items c))))"

definition position_in_stack :: "game \<Rightarrow> card_ref \<Rightarrow> error + int option" where
  "position_in_stack s c =
     (case stacked_on (cards s c) of None \<Rightarrow> Inr None
      | Some so \<Rightarrow> (case stack (cards s so) of None \<Rightarrow> Inl TypeError
                    | Some st \<Rightarrow> Inr (Some (index_of st c))))"

text \<open>
  \<open>card_is_on_top_of_stack\<close>: the last branch compares \<open>this.position_in_stack(card)\<close>
  with \<open>base.stack.length - 1\<close>. No variable \<open>base\<close> is declared in the function or in the
  module, so once the left operand is evaluated the reference to \<open>base\<close> throws.
\<close>

definition card_is_on_top_of_stack :: "game \<Rightarrow> card_ref \<Rightarrow> error + bool" where
  "card_is_on_top_of_stack s c =
     (if stack (cards s c) = None \<and> stacked_on (cards s c) = None then Inr True
      else if stack (cards s c) \<noteq> None then Inr False
      else (case position_in_stack s c of Inl e \<Rightarrow> Inl e
            | Inr pos \<Rightarrow> Inl ReferenceError))"

subsection \<open>Moving cards\<close>

text \<open>\<open>_remove_stack_from_pile\<close>, with its loop over \<open>card.stack\<close>.\<close>

fun priv_remove_stack_from_pile :: "nat \<Rightarrow> card_ref \<Rightarrow> game \<Rightarrow> outcome"
  and remove_stack_loop :: "nat \<Rightarrow> card_ref \<Rightarrow> nat \<Rightarrow> game \<Rightarrow> outcome" where
  "priv_remove_stack_from_pile 0 c s = (Some RangeError, s)"
| "priv_remove_stack_from_pile (Suc n) c s =
     (case priv_remove_card_from_pile c s of (Some e, s') \<Rightarrow> (Some e, s')
      | (None, s') \<Rightarrow> remove_stack_loop n c 0 s')"
| "remove_stack_loop 0 c i s = (Some RangeError, s)"
| "remove_stack_loop (Suc n) c i s =
     (case stack (cards s c) of None \<Rightarrow> (None, s)
      | Some st \<Rightarrow>
          if i < length st then
            (case priv_remove_stack_from_pile n (st ! i) s of (Some e, s') \<Rightarrow> (Some e, s')
             | (None, s') \<Rightarrow> remove_stack_loop n c (Suc i) s')
          else (None, s))"

definition cycle_message :: "game \<Rightarrow> card_ref \<Rightarrow> card_ref \<Rightarrow> string" where
  "cycle_message s c insert_after =
     ''Attempted to insert a stack into a pile after a card that was part of that stack! (''
       @ card_type (cards s c) @ '' onto '' @ card_type (cards s insert_after) @ '')''"

definition console_error :: "string \<Rightarrow> game \<Rightarrow> game" where
  "console_error msg s = s\<lparr>console := console s @ [msg]\<rparr>"

text \<open>The index at which \<open>insert_stack_into_pile_after\<close> splices; \<open>None\<close> is NaN.\<close>

definition insert_at :: "game \<Rightarrow> card_ref \<Rightarrow> int option \<Rightarrow> int option" where
  "insert_at s insert_after base_idx =
     (case base_idx of None \<Rightarrow> None
      | Some b \<Rightarrow> Some (b + 1 + (case stack (cards s insert_after) of None \<Rightarrow> 0
                                  | Some st \<Rightarrow> int (length st))))"

fun insert_stack_into_pile_after :: "nat \<Rightarrow> card_ref \<Rightarrow> card_ref \<Rightarrow> game \<Rightarrow> outcome"
  and insert_stack_loop :: "nat \<Rightarrow> card_ref \<Rightarrow> nat \<Rightarrow> game \<Rightarrow> outcome" where
  "insert_stack_into_pile_after 0 c insert_after s = (Some RangeError, s)"
| "insert_stack_into_pile_after (Suc n) c insert_after s =
     (case has_stack_ancestor n s insert_after c of None \<Rightarrow> (Some RangeError, s)
      | Some True \<Rightarrow> (None, console_error (cycle_message s c insert_after) s)
      | Some False \<Rightarrow>
         (case priv_remove_stack_from_pile n c s of (Some e, s1) \<Rightarrow> (Some e, s1)
          | (None, s1) \<Rightarrow>
             (case (if (case stacked_on (cards s1 c) of None \<Rightarrow> False
                        | Some so \<Rightarrow> pile (cards s1 so) \<noteq> pile (cards s1 insert_after))
                    then priv_unstack_card c s1 else (None, s1)) of
                (Some e, s2) \<Rightarrow> (Some e, s2)
              | (None, s2) \<Rightarrow>
                 (case position_in_pile s2 insert_after of Inl e \<Rightarrow> (Some e, s2)
                  | Inr base_idx \<Rightarrow>
                     (case piles s2 (pile_key (pile (cards s2 insert_after))) of
                        None \<Rightarrow> (Some TypeError, s2)
                      | Some pile_items \<Rightarrow>
                          (case insertBefore (cards_element s2 (pile_key (pile (cards s2 insert_after))))
                                  c (nextSibling s2 insert_after)
                                  (update_card c (\<lambda>r. r\<lparr>pile := pile (cards s2 insert_after)\<rparr>)
                                    (set_items (pile_key (pile (cards s2 insert_after)))
                                       (splice_in (insert_at s2 insert_after base_idx) c pile_items) s2)) of
                             (Some e, s3) \<Rightarrow> (Some e, s3)
                           | (None, s3) \<Rightarrow> insert_stack_loop n c 0 s3))))))"
| "insert_stack_loop 0 c i s = (Some RangeError, s)"
| "insert_stack_loop (Suc n) c i s =
     (case stack (cards s c) of None \<Rightarrow> (None, s)
      | Some st \<Rightarrow>
          if i < length st then
            (case insert_stack_into_pile_after n (st ! i) c s of (Some e, s') \<Rightarrow> (Some e, s')
             | (None, s') \<Rightarrow> insert_stack_loop n c (Suc i) s')
          else (None, s))"

fun put_stack_on_pile :: "nat \<Rightarrow> card_ref \<Rightarrow> pile_id \<Rightarrow> game \<Rightarrow> outcome"
  and put_stack_loop :: "nat \<Rightarrow> card_ref \<Rightarrow> pile_id \<Rightarrow> nat \<Rightarrow> game \<Rightarrow> outcome" where
  "put_stack_on_pile 0 c pile_id s = (Some RangeError, s)"
| "put_stack_on_pile (Suc n) c pile_id s =
     (case priv_remove_stack_from_pile n c s of (Some e, s1) \<Rightarrow> (Some e, s1)
      | (None, s1) \<Rightarrow>
         (let s2 = update_card c (\<lambda>r. r\<lparr>pile := Some pile_id\<rparr>) s1 in
          case piles s2 pile_id of None \<Rightarrow> (Some TypeError, s2)
          | Some items \<Rightarrow>
             (case put_stack_loop n c pile_id 0
                     (appendChild (cards_element s2 pile_id) c (set_items pile_id (items @ [c]) s2)) of
                (Some e, s3) \<Rightarrow> (Some e, s3)
              | (None, s3) \<Rightarrow>
                  if (case stacked_on (cards s3 c) of None \<Rightarrow> False
                      | Some so \<Rightarrow> pile (cards s3 so) \<noteq> pile (cards s3 c))
                  then priv_unstack_card c s3 else (None, s3))))"
| "put_stack_loop 0 c pile_id i s = (Some RangeError, s)"
| "put_stack_loop (Suc n) c pile_id i s =
     (case stack (cards s c) of None \<Rightarrow> (None, s)
      | Some st \<Rightarrow>
          if i < length st then
            (case put_stack_on_pile n (st ! i) pile_id s of (Some e, s') \<Rightarrow> (Some e, s')
             | (None, s') \<Rightarrow> put_stack_loop n c pile_id (Suc i) s')
          else (None, s))"

definition unstack_card :: "nat \<Rightarrow> card_ref \<Rightarrow> game \<Rightarrow> outcome" where
  "unstack_card n c s =
     (let pile0 = pile (cards s c); stacked_on0 = stacked_on (cards s c) in
      then_do (priv_unstack_card c s)
        (\<lambda>s1. case stacked_on0 of None \<Rightarrow> (None, s1)
           | Some so \<Rightarrow>
               if truthy pile0 \<and> (case stack (cards s1 so) of None \<Rightarrow> False | Some st \<Rightarrow> length st \<noteq> 0)
               then insert_stack_into_pile_after n c so s1
               else (None, s1)))"

definition remove_card_from_pile :: "nat \<Rightarrow> card_ref \<Rightarrow> game \<Rightarrow> outcome" where
  "remove_card_from_pile n c s =
     then_do (unstack_all_from c s)
       (\<lambda>s1. then_do (unstack_card n c s1) (priv_remove_card_from_pile c))"

definition remove_stack_from_pile :: "nat \<Rightarrow> card_ref \<Rightarrow> game \<Rightarrow> outcome" where
  "remove_stack_from_pile n c s =
     then_do (priv_unstack_card c s) (priv_remove_stack_from_pile n c)"

definition stack_card_on_card :: "nat \<Rightarrow> card_ref \<Rightarrow> card_ref \<Rightarrow> game \<Rightarrow> outcome" where
  "stack_card_on_card n card_to_stack stack_onto s =
     (if card_to_stack = stack_onto
      then (Some (InternalError ''Can't stack a card onto itself!''), s)
      else then_do (priv_unstack_card card_to_stack s)
        (\<lambda>s1. then_do
           (if truthy (pile (cards s1 stack_onto))
            then insert_stack_into_pile_after n card_to_stack stack_onto s1
            else priv_remove_stack_from_pile n card_to_stack s1)
           (\<lambda>s2. (None, priv_stack_cards card_to_stack stack_onto s2))))"

definition insert_card_into_pile_after :: "nat \<Rightarrow> card_ref \<Rightarrow> card_ref \<Rightarrow> game \<Rightarrow> outcome" where
  "insert_card_into_pile_after n c insert_after s =
     then_do (priv_unstack_card c s)
       (\<lambda>s1. then_do (unstack_all_from c s1) (insert_stack_into_pile_after n c insert_after))"

definition put_card_on_pile :: "nat \<Rightarrow> card_ref \<Rightarrow> pile_id \<Rightarrow> game \<Rightarrow> outcome" where
  "put_card_on_pile n c pile_id s =
     then_do (priv_unstack_card c s)
       (\<lambda>s1. then_do (unstack_all_from c s1) (put_stack_on_pile n c pile_id))"

text \<open>
  \<open>shuffle_pile\<close>. The first loop runs over the pile's items; it unstacks and takes the
  card's element out of the page, neither of which touches an items array. The node
  found by \<open>querySelector(".pilecards")\<close> is the \<open>cards_element\<close> of the pile.
  \<open>Math.floor(Math.random() * (i + 1))\<close> is some index in \<open>0..i\<close>: the choice made at
  index \<open>i\<close> is \<open>rnd i mod (i + 1)\<close> for an arbitrary \<open>rnd\<close>. The last loop puts the
  elements back in the new order.
\<close>

fun unstack_all_in :: "card_ref list \<Rightarrow> game \<Rightarrow> outcome" where
  "unstack_all_in [] s = (None, s)"
| "unstack_all_in (c # rest) s =
     (case unstack_all_from c s of (Some e, s') \<Rightarrow> (Some e, s')
      | (None, s') \<Rightarrow>
          (case removeChild c s' of (Some e, s'') \<Rightarrow> (Some e, s'')
           | (None, s'') \<Rightarrow> unstack_all_in rest s''))"

fun fisher_yates :: "(nat \<Rightarrow> nat) \<Rightarrow> nat \<Rightarrow> 'a list \<Rightarrow> 'a list" where
  "fisher_yates rnd 0 xs = xs"
| "fisher_yates rnd (Suc i) xs =
     (let j = rnd (Suc i) mod (Suc i + 1);
          moving = xs ! Suc i
      in fisher_yates rnd i ((xs[Suc i := xs ! j])[j := moving]))"

definition shuffle_pile :: "(nat \<Rightarrow> nat) \<Rightarrow> pile_id \<Rightarrow> game \<Rightarrow> outcome" where
  "shuffle_pile rnd pile_id s =
     (case piles s pile_id of None \<Rightarrow> (Some TypeError, s)
      | Some pile_items \<Rightarrow>
          then_do (unstack_all_in pile_items s)
            (\<lambda>s1. case piles s1 pile_id of None \<Rightarrow> (Some TypeError, s1)
               | Some items1 \<Rightarrow>
                   (None, append_all (cards_element s1 pile_id)
                            (fisher_yates rnd (length items1 - 1) items1)
                            (set_items pile_id (fisher_yates rnd (length items1 - 1) items1) s1))))"

text \<open>\<open>flip_card(card, put_face_up)\<close>; \<open>None\<close> is the omitted argument.\<close>

definition flip_card :: "card_ref \<Rightarrow> bool option \<Rightarrow> game \<Rightarrow> game" where
  "flip_card c put_face_up s =
     (case put_face_up of
        None \<Rightarrow> update_card c (\<lambda>r. r\<lparr>face_up := \<not> face_up r\<rparr>) s
      | Some b \<Rightarrow> update_card c (\<lambda>r. r\<lparr>face_up := b\<rparr>) s)"

subsection \<open>Starting a new game\<close>

text \<open>
  \<open>new_game\<close> empties the items of every pile and leaves the card objects alone; with
  \<open>cards_element.innerHTML = ""\<close> it takes every element out of the \<open>cards_element\<close> of
  every pile. The callbacks \<open>rules.cleanup\<close> and \<open>rules.setup\<close> it runs are calls of the
  public operations by the rules of the game.
\<close>

definition emptied :: "game \<Rightarrow> dom_node \<Rightarrow> bool" where
  "emptied s n \<longleftrightarrow> piles s (fst n) \<noteq> None \<and> cards_element s (fst n) = n"

definition new_game :: "game \<Rightarrow> game" where
  "new_game s =
     s\<lparr>piles := (\<lambda>p. case piles s p of None \<Rightarrow> None | Some items \<Rightarrow> Some []),
       dom_parent := (\<lambda>c. case dom_parent s c of None \<Rightarrow> None
                         | Some n \<Rightarrow> if emptied s n then None else Some n),
       dom_children := (\<lambda>n. if emptied s n then [] else dom_children s n)\<rparr>"

subsection \<open>Invariants of the data model\<close>

text \<open>The stacking links of a state: the pairs (card, card it is stacked on).\<close>

definition child_rel :: "game \<Rightarrow> (card_ref \<times> card_ref) set" where
  "child_rel s = {(c, p). stacked_on (cards s c) = Some p}"

text \<open>What a state says about stacking, and nothing else.\<close>

definition stacking :: "game \<Rightarrow> card_ref \<Rightarrow> card_ref option \<times> card_ref list option" where
  "stacking s = (\<lambda>c. (stacked_on (cards s c), stack (cards s c)))"

text \<open>\<open>x.stacked_on == y\<close> exactly when \<open>y\<close> has a \<open>stack\<close> that contains \<open>x\<close>.\<close>

definition stack_sync :: "game \<Rightarrow> bool" where
  "stack_sync s \<longleftrightarrow>
     (\<forall>x y. stacked_on (cards s x) = Some y \<longleftrightarrow> (\<exists>st. stack (cards s y) = Some st \<and> x \<in> set st))"

text \<open>A \<open>stack\<close> that is present lists each card once and is not empty.\<close>

definition stacks_proper :: "game \<Rightarrow> bool" where
  "stacks_proper s \<longleftrightarrow> (\<forall>y st. stack (cards s y) = Some st \<longrightarrow> distinct st \<and> st \<noteq> [])"

definition stack_inv :: "game \<Rightarrow> bool" where
  "stack_inv s \<longleftrightarrow> stack_sync s \<and> stacks_proper s"

text \<open>
  A game as the constructor and \<open>create_card\<close> leave it: no card is in a pile or in a
  stack, and the piles are empty.
\<close>

definition initial_game :: "game \<Rightarrow> bool" where
  "initial_game s \<longleftrightarrow>
     (\<forall>c. pile (cards s c) = None \<and> stacked_on (cards s c) = None \<and> stack (cards s c) = None)
     \<and> (\<forall>p items. piles s p = Some items \<longrightarrow> items = [])"

text \<open>
  The states a game can get into: from an initial one by the public operations, called
  with any arguments; a call that throws leaves the state it had reached.
\<close>

inductive reachable :: "game \<Rightarrow> bool" where
  initial: "initial_game s \<Longrightarrow> reachable s"
| stack_card_on_card: "reachable s \<Longrightarrow> reachable (snd (stack_card_on_card n a b s))"
| insert_stack_into_pile_after: "reachable s \<Longrightarrow> reachable (snd (insert_stack_into_pile_after n c ia s))"
| insert_card_into_pile_after: "reachable s \<Longrightarrow> reachable (snd (insert_card_into_pile_after n c ia s))"
| put_card_on_pile: "reachable s \<Longrightarrow> reachable (snd (put_card_on_pile n c p s))"
| put_stack_on_pile: "reachable s \<Longrightarrow> reachable (snd (put_stack_on_pile n c p s))"
| remove_card_from_pile: "reachable s \<Longrightarrow> reachable (snd (remove_card_from_pile n c s))"
| remove_stack_from_pile: "reachable s \<Longrightarrow> reachable (snd (remove_stack_from_pile n c s))"
| unstack_card: "reachable s \<Longrightarrow> reachable (snd (unstack_card n c s))"
| unstack_all_from: "reachable s \<Longrightarrow> reachable (snd (unstack_all_from c s))"
| shuffle_pile: "reachable s \<Longrightarrow> reachable (snd (shuffle_pile rnd p s))"
| flip_card: "reachable s \<Longrightarrow> reachable (flip_card c arg s)"
| create_pile: "reachable s \<Longrightarrow> reachable (create_pile p s)"
| delete_pile: "reachable s \<Longrightarrow> reachable (snd (delete_pile p s))"
| new_game: "reachable s \<Longrightarrow> reachable (new_game s)"

subsection \<open>Example states\<close>

definition blank_card :: card where
  "blank_card = \<lparr>card_type = ''t1'', face_up = False, pile = None, stacked_on = None, stack = None\<rparr>"

text \<open>The state after the constructor \<open>Game\<close> with no piles in the rules.\<close>

definition empty_game :: game where
  "empty_game = \<lparr>cards = (\<lambda>_. blank_card), piles = Map.empty, pile_groups = Map.empty, console = [],
     cards_element = (\<lambda>p. (p, 0)), dom_parent = (\<lambda>_. None), dom_children = (\<lambda>_. []),
     dom_created = 0\<rparr>"

text \<open>Cards 0 and 1 put on the pile "tp", in that order.\<close>

definition two_card_pile :: game where
  "two_card_pile =
     snd (put_card_on_pile 10 1 ''tp'' (snd (put_card_on_pile 10 0 ''tp'' (create_pile ''tp'' empty_game))))"

text \<open>Card 1 stacked on card 0, neither in a pile.\<close>

definition one_on_zero :: game where
  "one_on_zero = snd (stack_card_on_card 10 1 0 empty_game)"

text \<open>Card 0 put on the pile "tp" and card 1 stacked on it.\<close>

definition stacked_pile :: game where
  "stacked_pile =
     snd (stack_card_on_card 10 1 0 (snd (put_card_on_pile 10 0 ''tp'' (create_pile ''tp'' empty_game))))"

text \<open>
  A pile with the empty id: card 0 put on it twice, card 1 put on it, and card 2 stacked
  on card 1.
\<close>

definition dup_pile :: game where
  "dup_pile =
     snd (stack_card_on_card 10 2 1
       (snd (put_card_on_pile 10 1 ''''
         (snd (put_card_on_pile 10 0 ''''
           (snd (put_card_on_pile 10 0 '''' (create_pile '''' empty_game))))))))"

text \<open>
  Cards 2 and 0 stacked on card 1, then card 1 stacked on card 2: the \<open>stacked_on\<close>
  links are 0 to 1, 1 to 2 and 2 to 1.
\<close>

definition rho_game :: game where
  "rho_game =
     snd (stack_card_on_card 10 1 2 (snd (stack_card_on_card 10 0 1 (snd (stack_card_on_card 10 2 1 empty_game)))))"

text \<open>A library with the card types t1 and t2 and the group "evens".\<close>

definition empty_library :: "nat library" where
  "empty_library = \<lparr>name = ''test'', card_data = Map.empty, all_cards = [],
     group_data = Map.empty, all_groups = []\<rparr>"

definition library_t1_t2 :: "nat library" where
  "library_t1_t2 =
     \<lparr>name = ''test'',
      card_data = [''t1'' \<mapsto> \<lparr>entry_id = ''t1'', face = ''t1'', properties = 1\<rparr>,
                   ''t2'' \<mapsto> \<lparr>entry_id = ''t2'', face = ''t2'', properties = 2\<rparr>],
      all_cards = [''t1'', ''t2''],
      group_data = Map.empty, all_groups = []\<rparr>"

definition library_with_evens :: "nat library" where
  "library_with_evens =
     (case create_group ''evens'' (\<lambda>n. n mod 2 = 0) library_t1_t2 of Inr lib \<Rightarrow> lib
      | Inl e \<Rightarrow> library_t1_t2)"

section \<open>Properties\<close>

subsection \<open>Self-stacking\<close>

text \<open>
  C2. \<open>stack_card_on_card(a, a)\<close> throws, and the state at the throw is the state before
  the call: nothing of any pile or card has changed.
\<close>

theorem stack_card_on_card_self:
  "stack_card_on_card n a a s = (Some (InternalError ''Can't stack a card onto itself!''), s)"
  by (simp add: stack_card_on_card_def)

subsection \<open>Flipping a card\<close>

text \<open>
  C10. \<open>flip_card(card)\<close> negates \<open>face_up\<close>, \<open>flip_card(card, b)\<close> sets it to \<open>b\<close>, and
  in both cases nothing else changes: the piles, the pile groups, every other card, and
  the fields \<open>pile\<close>, \<open>stacked_on\<close> and \<open>stack\<close> (and the type) of every card are as
  before.
\<close>

theorem flip_card_frame:
  "face_up (cards (flip_card c None s) c) = (\<not> face_up (cards s c))
   \<and> face_up (cards (flip_card c (Some b) s) c) = b
   \<and> piles (flip_card c arg s) = piles s
   \<and> pile_groups (flip_card c arg s) = pile_groups s
   \<and> console (flip_card c arg s) = console s
   \<and> (\<forall>x. pile (cards (flip_card c arg s) x) = pile (cards s x)
          \<and> stacked_on (cards (flip_card c arg s) x) = stacked_on (cards s x)
          \<and> stack (cards (flip_card c arg s) x) = stack (cards s x)
          \<and> card_type (cards (flip_card c arg s) x) = card_type (cards s x))
   \<and> (\<forall>x. x \<noteq> c \<longrightarrow> cards (flip_card c arg s) x = cards s x)"
  by (cases arg) (simp_all add: flip_card_def update_card_def)

theorem flip_card_frame_witness:
  "face_up (cards (flip_card 0 None empty_game) 0)
   \<and> \<not> face_up (cards (flip_card 0 (Some False) (flip_card 0 None empty_game)) 0)
   \<and> piles (flip_card 0 None empty_game) = Map.empty
   \<and> cards (flip_card 0 None empty_game) 1 = blank_card"
  using flip_card_frame [of 0 empty_game False None]
    flip_card_frame [of 0 "flip_card 0 None empty_game" False "Some False"]
  by (simp add: empty_game_def blank_card_def)

subsection \<open>Groups of card types\<close>

text \<open>
  C7. A second \<open>create_group\<close> with the id of an existing group is expected to fail. It
  does not: the guard asks the constructor \<open>Object\<close> for a property named after the
  whole \<open>group_data\<close> object, which it never has, so the call goes through, replaces the
  member list of "evens" and lists the group id a second time.
\<close>

theorem create_group_twice_overwrites:
  "group_data library_with_evens ''evens'' = Some [''t2'']
   \<and> (case create_group ''evens'' (\<lambda>n. True) library_with_evens of
        Inl e \<Rightarrow> False
      | Inr lib \<Rightarrow> group_data lib ''evens'' = Some [''t1'', ''t2'']
                  \<and> all_groups lib = [''evens'', ''evens''])"
  by (simp add: library_with_evens_def library_t1_t2_def create_group_def
      Object_hasOwnProperty_def to_property_key_def Object_own_properties_def)

lemma collect_group_members_error:
  "collect_group_members f cd xs = Inl e \<Longrightarrow> e = TypeError"
  by (induction xs arbitrary: e) (auto split: option.splits sum.splits)

text \<open>The guard never reports a duplicate, whatever the library holds.\<close>

lemma create_group_never_duplicate:
  "create_group g f lib \<noteq> Inl (Error (''Group '' @ g @ '' already exists.''))"
  by (auto simp: create_group_def Object_hasOwnProperty_def to_property_key_def
      Object_own_properties_def split: sum.splits bool.splits
      dest: collect_group_members_error)

subsection \<open>Top of a stack\<close>

text \<open>
  C9. For a card that is stacked on another one and carries no stack of its own,
  \<open>card_is_on_top_of_stack\<close> is expected to answer whether it is the last of its
  parent's stack. With card 1 stacked on card 0 it throws a ReferenceError instead.
\<close>

theorem card_is_on_top_of_stack_throws:
  "stacked_on (cards one_on_zero 1) = Some 0
   \<and> stack (cards one_on_zero 1) = None
   \<and> stack (cards one_on_zero 0) = Some [1]
   \<and> card_is_on_top_of_stack one_on_zero 1 = Inl ReferenceError"
  by code_simp

text \<open>The same happens for every stacked card without a stack of its own.\<close>

lemma card_is_on_top_of_stack_stacked:
  "stacked_on (cards s c) \<noteq> None \<Longrightarrow> stack (cards s c) = None
   \<Longrightarrow> card_is_on_top_of_stack s c = Inl ReferenceError \<or> card_is_on_top_of_stack s c = Inl TypeError"
  by (auto simp: card_is_on_top_of_stack_def position_in_stack_def split: option.splits sum.splits)

lemma card_is_on_top_of_stack_other:
  "card_is_on_top_of_stack s c = Inr b
   \<longleftrightarrow> (stack (cards s c) = None \<and> stacked_on (cards s c) = None \<and> b)
       \<or> (stack (cards s c) \<noteq> None \<and> \<not> b)"
  by (auto simp: card_is_on_top_of_stack_def split: option.splits sum.splits)

subsection \<open>Deleting a pile\<close>

text \<open>
  C6. Every card of a deleted pile is expected to end without a pile. With the cards 0
  and 1 in the pile "tp", \<open>delete_pile\<close> returns normally and removes the pile and its
  groups, but the loop skips card 1 (removing card 0 shifts it to the index the iterator
  has already passed): card 1 still names the deleted pile as its pile.
\<close>

theorem delete_pile_skips_card:
  "piles two_card_pile ''tp'' = Some [0, 1]
   \<and> pile (cards two_card_pile 0) = Some ''tp''
   \<and> pile (cards two_card_pile 1) = Some ''tp''
   \<and> fst (delete_pile ''tp'' two_card_pile) = None
   \<and> piles (snd (delete_pile ''tp'' two_card_pile)) ''tp'' = None
   \<and> pile_groups (snd (delete_pile ''tp'' two_card_pile)) ''tp'' = None
   \<and> pile (cards (snd (delete_pile ''tp'' two_card_pile)) 0) = None
   \<and> pile (cards (snd (delete_pile ''tp'' two_card_pile)) 1) = Some ''tp''"
  by code_simp

subsection \<open>The root of a stack\<close>

lemma rho_game_links:
  "stacked_on (cards rho_game 0) = Some 1"
  "stacked_on (cards rho_game 1) = Some 2"
  "stacked_on (cards rho_game 2) = Some 1"
  by code_simp+

lemma stack_root_rho_inner:
  "c = 1 \<or> c = 2 \<Longrightarrow> stack_root n rho_game c (Some 0) = None"
proof (induction n arbitrary: c)
  case 0
  then show ?case by simp
next
  case (Suc n)
  from Suc.prems show ?case
  proof
    assume "c = 1"
    then show ?thesis using Suc.IH [of 2] rho_game_links by simp
  next
    assume "c = 2"
    then show ?thesis using Suc.IH [of 1] rho_game_links by simp
  qed
qed

text \<open>
  C8. \<open>stack_root\<close> is expected to return in every state, cyclic ones included. In the
  state reached by stacking 2 on 1, 0 on 1 and then 1 on 2, the chain from card 0 enters
  the cycle between 1 and 2 and never comes back to card 0, the only card the function
  compares with: whatever depth of recursion is allowed, \<open>stack_root\<close> of card 0 uses it
  up and returns nothing.
\<close>

theorem stack_root_rho_never_returns:
  "stack_root n rho_game 0 None = None"
proof (cases n)
  case 0
  then show ?thesis by simp
next
  case (Suc m)
  then show ?thesis using stack_root_rho_inner [of 1 m] rho_game_links by simp
qed

subsection \<open>The stacking links stay in sync\<close>

text \<open>
  Only \<open>_stack_cards\<close> and \<open>_unstack_card\<close> write \<open>stacked_on\<close> and \<open>stack\<close>; all
  the rest of a move changes piles. The proofs go through the functions once for an
  arbitrary property that \<open>_unstack_card\<close> keeps and that only depends on the stacking
  links.
\<close>

lemma stacking_eqD:
  "stacking s' = stacking s \<Longrightarrow> stacked_on (cards s' c) = stacked_on (cards s c) \<and> stack (cards s' c) = stack (cards s c)"
  by (drule fun_cong [where x = c]) (simp add: stacking_def)

lemma stacking_update_pile [simp]: "stacking (update_card c (\<lambda>r. r\<lparr>pile := v\<rparr>) s) = stacking s"
  by (auto simp: stacking_def update_card_def)

lemma stacking_update_face [simp]: "stacking (update_card c (\<lambda>r. r\<lparr>face_up := v r\<rparr>) s) = stacking s"
  by (auto simp: stacking_def update_card_def)

lemma stacking_set_items [simp]: "stacking (set_items p xs s) = stacking s"
  by (simp add: stacking_def set_items_def)

lemma stacking_console_error [simp]: "stacking (console_error m s) = stacking s"
  by (simp add: stacking_def console_error_def)

lemma cards_detach_element [simp]: "cards (detach_element c s) = cards s"
  by (simp add: detach_element_def split: option.splits)

lemma cards_removeChild [simp]: "cards (snd (removeChild c s)) = cards s"
  by (simp add: removeChild_def split: option.splits)

lemma cards_appendChild [simp]: "cards (appendChild n c s) = cards s"
  by (simp add: appendChild_def Let_def)

lemma cards_insertBefore [simp]: "cards (snd (insertBefore n c r s)) = cards s"
  by (simp add: insertBefore_def Let_def split: option.splits)

lemma cards_append_all [simp]: "cards (append_all n xs s) = cards s"
  by (induction xs arbitrary: s) simp_all

lemma stacking_cards: "cards s' = cards s \<Longrightarrow> stacking s' = stacking s"
  by (simp add: stacking_def)

lemma stacking_removeChild [simp]: "stacking (snd (removeChild c s)) = stacking s"
  by (rule stacking_cards) simp

lemma stacking_appendChild [simp]: "stacking (appendChild n c s) = stacking s"
  by (rule stacking_cards) simp

lemma stacking_insertBefore [simp]: "stacking (snd (insertBefore n c r s)) = stacking s"
  by (rule stacking_cards) simp

lemma stacking_append_all [simp]: "stacking (append_all n xs s) = stacking s"
  by (rule stacking_cards) simp

lemma stack_inv_stacking:
  assumes "stacking s' = stacking s"
  shows "stack_inv s' = stack_inv s"
proof -
  have a: "\<And>c. stacked_on (cards s' c) = stacked_on (cards s c)"
    and b: "\<And>c. stack (cards s' c) = stack (cards s c)"
    using stacking_eqD [OF assms] by auto
  show ?thesis
    unfolding stack_inv_def stack_sync_def stacks_proper_def a b ..
qed

lemma stacking_remove_card [simp]: "stacking (snd (priv_remove_card_from_pile c s)) = stacking s"
proof (cases "truthy (pile (cards s c))")
  case False
  then show ?thesis by (simp add: priv_remove_card_from_pile_def Let_def)
next
  case True
  show ?thesis
  proof (cases "piles s (pile_key (pile (cards s c)))")
    case None
    then show ?thesis using True by (simp add: priv_remove_card_from_pile_def Let_def)
  next
    case (Some items)
    obtain e s1 where r: "removeChild c (set_items (pile_key (pile (cards s c))) (remove1 c items) s) = (e, s1)"
      by fastforce
    have "stacking s1 = stacking s"
      using stacking_removeChild [of c "set_items (pile_key (pile (cards s c))) (remove1 c items) s"] r
      by simp
    then show ?thesis using True Some r
      by (cases e) (simp_all add: priv_remove_card_from_pile_def Let_def)
  qed
qed


lemma priv_unstack_card_inv: "stack_inv s \<Longrightarrow> stack_inv (snd (priv_unstack_card c s))"
proof (cases "stacked_on (cards s c)")
  case None
  then show "stack_inv s \<Longrightarrow> ?thesis" by (simp add: priv_unstack_card_def)
next
  case (Some so)
  assume inv: "stack_inv s"
  from inv Some obtain st where st: "stack (cards s so) = Some st" "c \<in> set st"
    unfolding stack_inv_def stack_sync_def by blast
  from inv st have d: "distinct st" "st \<noteq> []"
    unfolding stack_inv_def stacks_proper_def by blast+
  have sync: "\<And>x y. stacked_on (cards s x) = Some y \<longleftrightarrow> (\<exists>st. stack (cards s y) = Some st \<and> x \<in> set st)"
    using inv unfolding stack_inv_def stack_sync_def by blast
  have proper: "\<And>y st. stack (cards s y) = Some st \<Longrightarrow> distinct st \<and> st \<noteq> []"
    using inv unfolding stack_inv_def stacks_proper_def by blast
  let ?s' = "snd (priv_unstack_card c s)"
  have so': "stacked_on (cards ?s' x) = (if x = c then None else stacked_on (cards s x))" for x
    using Some st by (auto simp: priv_unstack_card_def update_card_def Let_def)
  have st': "stack (cards ?s' y) = (if y = so then (if remove1 c st = [] then None else Some (remove1 c st)) else stack (cards s y))" for y
    using Some st by (auto simp: priv_unstack_card_def update_card_def Let_def)
  have "stack_sync ?s'"
    unfolding stack_sync_def
  proof (intro allI)
    fix x y
    show "stacked_on (cards ?s' x) = Some y \<longleftrightarrow> (\<exists>st. stack (cards ?s' y) = Some st \<and> x \<in> set st)"
    proof (cases "x = c")
      case True
      have "\<not> (\<exists>st. stack (cards ?s' y) = Some st \<and> c \<in> set st)"
      proof (cases "y = so")
        case True
        then show ?thesis using d by (auto simp: st')
      next
        case False
        then show ?thesis using sync [of c y] Some by (auto simp: st')
      qed
      then show ?thesis using True by (simp add: so')
    next
      case False
      show ?thesis
      proof (cases "y = so")
        case True
        have "x \<in> set (remove1 c st) \<longleftrightarrow> x \<in> set st" using False d by auto
        moreover have "remove1 c st = [] \<Longrightarrow> x \<notin> set st"
          using False d st by (metis calculation empty_iff empty_set)
        ultimately show ?thesis using sync [of x so] st False True by (auto simp: so' st')
      next
        case False2: False
        then show ?thesis using sync [of x y] False by (simp add: so' st')
      qed
    qed
  qed
  moreover have "stacks_proper ?s'"
    unfolding stacks_proper_def using proper d by (auto simp: st')
  ultimately show ?thesis by (simp add: stack_inv_def)
qed

lemma priv_unstack_card_root:
  "stacked_on (cards s a) = None \<Longrightarrow> stacked_on (cards (snd (priv_unstack_card c s)) a) = None"
  by (auto simp: priv_unstack_card_def update_card_def Let_def split: option.splits)

lemma priv_unstack_card_self:
  "stack_inv s \<Longrightarrow> stacked_on (cards (snd (priv_unstack_card c s)) c) = None"
  by (auto simp: priv_unstack_card_def update_card_def Let_def split: option.splits)

lemma priv_stack_cards_inv:
  assumes inv: "stack_inv s" and root: "stacked_on (cards s a) = None"
  shows "stack_inv (priv_stack_cards a b s)"
proof -
  have sync: "\<And>x y. stacked_on (cards s x) = Some y \<longleftrightarrow> (\<exists>st. stack (cards s y) = Some st \<and> x \<in> set st)"
    using inv unfolding stack_inv_def stack_sync_def by blast
  have proper: "\<And>y st. stack (cards s y) = Some st \<Longrightarrow> distinct st \<and> st \<noteq> []"
    using inv unfolding stack_inv_def stacks_proper_def by blast
  have notin: "\<And>y st. stack (cards s y) = Some st \<Longrightarrow> a \<notin> set st"
    using sync root by (metis option.distinct(1))
  let ?s' = "priv_stack_cards a b s"
  have so': "stacked_on (cards ?s' x) = (if x = a then Some b else stacked_on (cards s x))" for x
    by (auto simp: priv_stack_cards_def update_card_def Let_def split: option.splits)
  have st': "stack (cards ?s' y) = (if y = b then Some ((case stack (cards s b) of None \<Rightarrow> [] | Some st \<Rightarrow> st) @ [a]) else stack (cards s y))" for y
    by (auto simp: priv_stack_cards_def update_card_def Let_def split: option.splits)
  have "stack_sync ?s'"
    unfolding stack_sync_def
  proof (intro allI)
    fix x y
    show "stacked_on (cards ?s' x) = Some y \<longleftrightarrow> (\<exists>st. stack (cards ?s' y) = Some st \<and> x \<in> set st)"
      using sync [of x y] notin [of y] root
      by (cases "x = a"; cases "y = b") (auto simp: so' st' split: option.splits)
  qed
  moreover have "stacks_proper ?s'"
    unfolding stacks_proper_def using proper notin by (auto simp: st' split: option.splits)
  ultimately show ?thesis by (simp add: stack_inv_def)
qed


lemma stacking_remove_stack:
  "stacking (snd (priv_remove_stack_from_pile n c s)) = stacking s
   \<and> stacking (snd (remove_stack_loop n c i s)) = stacking s"
proof (induction n arbitrary: c i s)
  case 0
  show ?case by simp
next
  case (Suc n)
  have a: "stacking (snd (priv_remove_stack_from_pile (Suc n) c s)) = stacking s"
  proof (cases "priv_remove_card_from_pile c s")
    case (Pair e s')
    have "stacking s' = stacking s" using stacking_remove_card [of c s] Pair by simp
    then show ?thesis using Pair Suc [where c = c and i = 0 and s = s'] by (cases e) simp_all
  qed
  have b: "stacking (snd (remove_stack_loop (Suc n) c i s)) = stacking s"
  proof (cases "stack (cards s c)")
    case None
    then show ?thesis by simp
  next
    case (Some st)
    show ?thesis
    proof (cases "i < length st")
      case True
      obtain e s' where r: "priv_remove_stack_from_pile n (st ! i) s = (e, s')" by fastforce
      have "stacking s' = stacking s" using Suc [where c = "st ! i" and s = s and i = 0] r by simp
      then show ?thesis using Some True r Suc [where c = c and i = "Suc i" and s = s'] by (cases e) simp_all
    next
      case False
      then show ?thesis using Some by simp
    qed
  qed
  from a b show ?case ..
qed

lemma insert_stack_preserves:
  assumes U: "\<And>c s. P s \<Longrightarrow> P (snd (priv_unstack_card c s))"
    and F: "\<And>s s'. stacking s' = stacking s \<Longrightarrow> P s \<Longrightarrow> P s'"
  shows "P s \<Longrightarrow> P (snd (insert_stack_into_pile_after n c ia s))
     \<and> P (snd (insert_stack_loop n c i s))"
proof (induction n arbitrary: c ia i s)
  case 0
  then show ?case by simp
next
  case (Suc n)
  note P = Suc.prems
  have a: "P (snd (insert_stack_into_pile_after (Suc n) c ia s))"
  proof (cases "has_stack_ancestor n s ia c")
    case None
    then show ?thesis using P by simp
  next
    case (Some anc)
    show ?thesis
    proof (cases anc)
      case True
      then show ?thesis using Some P F [of "console_error (cycle_message s c ia) s" s] by simp
    next
      case False
      obtain e1 s1 where r1: "priv_remove_stack_from_pile n c s = (e1, s1)" by fastforce
      have P1: "P s1" using F [of s1 s] P stacking_remove_stack [of n c s] r1 by simp
      show ?thesis
      proof (cases e1)
        case (Some e)
        then show ?thesis using \<open>has_stack_ancestor n s ia c = Some anc\<close> False r1 P1 by simp
      next
        case None
        define r2 where "r2 = (if (case stacked_on (cards s1 c) of None \<Rightarrow> False
                        | Some so \<Rightarrow> pile (cards s1 so) \<noteq> pile (cards s1 ia))
                    then priv_unstack_card c s1 else (None, s1))"
        obtain e2 s2 where r2': "r2 = (e2, s2)" by fastforce
        have P2: "P s2" using U [of s1 c] P1 r2' unfolding r2_def by (auto split: if_splits)
        have P3: "P (update_card c (\<lambda>r. r\<lparr>pile := v\<rparr>) (set_items k xs s2))" for v k xs
          by (rule F [OF _ P2]) simp
        note facts = \<open>has_stack_ancestor n s ia c = Some anc\<close> False r1 None r2' [unfolded r2_def]
        show ?thesis
        proof (cases e2)
          case (Some e)
          then show ?thesis using facts P2 by simp
        next
          case e2n: None
          show ?thesis
          proof (cases "position_in_pile s2 ia")
            case (Inl e)
            then show ?thesis using facts e2n P2 by simp
          next
            case (Inr base_idx)
            show ?thesis
            proof (cases "piles s2 (pile_key (pile (cards s2 ia)))")
              case pn: None
              then show ?thesis using facts e2n Inr P2 by simp
            next
              case (Some pile_items)
              obtain e4 s4 where r4: "insertBefore (cards_element s2 (pile_key (pile (cards s2 ia))))
                    c (nextSibling s2 ia)
                    (update_card c (\<lambda>r. r\<lparr>pile := pile (cards s2 ia)\<rparr>)
                      (set_items (pile_key (pile (cards s2 ia)))
                         (splice_in (insert_at s2 ia base_idx) c pile_items) s2)) = (e4, s4)"
                by fastforce
              have "stacking s4 = stacking s2"
                using stacking_insertBefore [of "cards_element s2 (pile_key (pile (cards s2 ia)))"
                    c "nextSibling s2 ia"
                    "update_card c (\<lambda>r. r\<lparr>pile := pile (cards s2 ia)\<rparr>)
                      (set_items (pile_key (pile (cards s2 ia)))
                         (splice_in (insert_at s2 ia base_idx) c pile_items) s2)"] r4
                by simp
              then have P4: "P s4" using P2 by (rule F)
              show ?thesis
                using facts e2n Inr Some r4 P4 Suc.IH [OF P4, where c = c and i = 0]
                by (cases e4) simp_all
            qed
          qed
        qed
      qed
    qed
  qed
  have b: "P (snd (insert_stack_loop (Suc n) c i s))"
  proof (cases "stack (cards s c)")
    case None
    then show ?thesis using P by simp
  next
    case (Some st)
    show ?thesis
    proof (cases "i < length st")
      case True
      obtain e s' where r: "insert_stack_into_pile_after n (st ! i) c s = (e, s')" by fastforce
      have "P s'" using Suc.IH [OF P, where c = "st ! i" and ia = c] r by simp
      then show ?thesis using Some True r Suc.IH [where s = s' and c = c and i = "Suc i"] by (cases e) simp_all
    next
      case False
      then show ?thesis using Some P by simp
    qed
  qed
  from a b show ?case ..
qed


lemma put_stack_preserves:
  assumes U: "\<And>c s. P s \<Longrightarrow> P (snd (priv_unstack_card c s))"
    and F: "\<And>s s'. stacking s' = stacking s \<Longrightarrow> P s \<Longrightarrow> P s'"
  shows "P s \<Longrightarrow> P (snd (put_stack_on_pile n c p s))
     \<and> P (snd (put_stack_loop n c p i s))"
proof (induction n arbitrary: c i s)
  case 0
  then show ?case by simp
next
  case (Suc n)
  note P = Suc.prems
  have a: "P (snd (put_stack_on_pile (Suc n) c p s))"
  proof -
    obtain e1 s1 where r1: "priv_remove_stack_from_pile n c s = (e1, s1)" by fastforce
    have P1: "P s1" using F [of s1 s] P stacking_remove_stack [of n c s] r1 by simp
    show ?thesis
    proof (cases e1)
      case (Some e)
      then show ?thesis using r1 P1 by simp
    next
      case None
      let ?s2 = "update_card c (\<lambda>r. r\<lparr>pile := Some p\<rparr>) s1"
      have P2: "P ?s2" by (rule F [OF _ P1]) simp
      show ?thesis
      proof (cases "piles ?s2 p")
        case pn: None
        then show ?thesis using r1 None P2 by (simp add: Let_def)
      next
        case (Some items)
        let ?s2' = "appendChild (cards_element ?s2 p) c (set_items p (items @ [c]) ?s2)"
        have P2': "P ?s2'" by (rule F [OF _ P2]) simp
        obtain e3 s3 where r3: "put_stack_loop n c p 0 ?s2' = (e3, s3)" by fastforce
        have P3: "P s3" using Suc.IH [OF P2', where c = c and i = 0] r3 by simp
        show ?thesis using r1 None Some r3 P3 U [OF P3, of c]
          by (cases e3) (simp_all add: Let_def)
      qed
    qed
  qed
  have b: "P (snd (put_stack_loop (Suc n) c p i s))"
  proof (cases "stack (cards s c)")
    case None
    then show ?thesis using P by simp
  next
    case (Some st)
    show ?thesis
    proof (cases "i < length st")
      case True
      obtain e s' where r: "put_stack_on_pile n (st ! i) p s = (e, s')" by fastforce
      have "P s'" using Suc.IH [OF P, where c = "st ! i"] r by simp
      then show ?thesis using Some True r Suc.IH [where s = s' and c = c and i = "Suc i"] by (cases e) simp_all
    next
      case False
      then show ?thesis using Some P by simp
    qed
  qed
  from a b show ?case ..
qed

lemma then_do_preserves:
  assumes "P (snd r)" and "\<And>s. P s \<Longrightarrow> Q s" and "\<And>s. P s \<Longrightarrow> Q (snd (f s))"
  shows "Q (snd (then_do r f))"
  using assms by (cases r; cases "fst r") (auto simp: then_do_def)

lemma unstack_each_preserves:
  assumes U: "\<And>c s. P s \<Longrightarrow> P (snd (priv_unstack_card c s))"
  shows "P s \<Longrightarrow> P (snd (unstack_each xs s))"
proof (induction xs arbitrary: s)
  case Nil
  then show ?case by simp
next
  case (Cons x xs)
  obtain e s' where r: "priv_unstack_card x s = (e, s')" by fastforce
  have "P s'" using U [OF Cons.prems, of x] r by simp
  then show ?case using r Cons.IH [of s'] by (cases e) simp_all
qed

lemma unstack_all_from_preserves:
  assumes U: "\<And>c s. P s \<Longrightarrow> P (snd (priv_unstack_card c s))"
  shows "P s \<Longrightarrow> P (snd (unstack_all_from b s))"
  using unstack_each_preserves [of P, OF U]
  by (auto simp: unstack_all_from_def split: option.splits)

lemma unstack_all_in_preserves:
  assumes U: "\<And>c s. P s \<Longrightarrow> P (snd (priv_unstack_card c s))"
    and R: "\<And>c s. P s \<Longrightarrow> P (snd (removeChild c s))"
  shows "P s \<Longrightarrow> P (snd (unstack_all_in xs s))"
proof (induction xs arbitrary: s)
  case Nil
  then show ?case by simp
next
  case (Cons x xs)
  obtain e s' where r: "unstack_all_from x s = (e, s')" by fastforce
  have P': "P s'" using unstack_all_from_preserves [of P, OF U Cons.prems, of x] r by simp
  show ?case
  proof (cases e)
    case (Some err)
    then show ?thesis using r P' by simp
  next
    case None
    obtain e2 s'' where r2: "removeChild x s' = (e2, s'')" by fastforce
    have "P s''" using R [OF P', of x] r2 by simp
    then show ?thesis using r None r2 Cons.IH [of s''] by (cases e2) simp_all
  qed
qed

lemma stack_inv_removeChild: "stack_inv s \<Longrightarrow> stack_inv (snd (removeChild c s))"
  using stack_inv_stacking [OF stacking_removeChild] by simp

lemma stacking_delete_pile_loop:
  "stacking (snd (delete_pile_loop p i s)) = stacking s"
proof (induction p i s rule: delete_pile_loop.induct)
  case (1 p i s)
  show ?case
  proof (cases "piles s p")
    case None
    then show ?thesis by (simp add: delete_pile_loop.simps [of p i s])
  next
    case (Some items)
    show ?thesis
    proof (cases "i < length items")
      case True
      obtain e s' where r: "priv_remove_card_from_pile (items ! i) s = (e, s')" by fastforce
      have eq: "stacking s' = stacking s" using stacking_remove_card [of "items ! i" s] r by simp
      show ?thesis
      proof (cases e)
        case None
        then show ?thesis
          using "1.IH" [OF \<open>piles s p = Some items\<close> True r [symmetric] None] eq r \<open>piles s p = Some items\<close> True
          by (simp add: delete_pile_loop.simps [of p i s])
      next
        case (Some err)
        then show ?thesis using eq r \<open>piles s p = Some items\<close> True
          by (simp add: delete_pile_loop.simps [of p i s])
      qed
    next
      case False
      then show ?thesis using Some by (simp add: delete_pile_loop.simps [of p i s])
    qed
  qed
qed

lemma stacking_delete_pile: "stacking (snd (delete_pile p s)) = stacking s"
proof (cases "piles s p")
  case None
  then show ?thesis by (simp add: delete_pile_def)
next
  case (Some items)
  obtain e s' where r: "delete_pile_loop p 0 s = (e, s')" by fastforce
  have "stacking s' = stacking s" using stacking_delete_pile_loop [of p 0 s] r by simp
  then show ?thesis using Some r
    by (cases e) (simp_all add: delete_pile_def then_do_def stacking_def)
qed

lemma stack_inv_unstacked_U:
  "stack_inv s \<and> stacked_on (cards s a) = None
   \<Longrightarrow> stack_inv (snd (priv_unstack_card c s)) \<and> stacked_on (cards (snd (priv_unstack_card c s)) a) = None"
  by (simp add: priv_unstack_card_inv priv_unstack_card_root)

lemma stack_inv_unstacked_F:
  "stacking s' = stacking s \<Longrightarrow> stack_inv s \<and> stacked_on (cards s a) = None
   \<Longrightarrow> stack_inv s' \<and> stacked_on (cards s' a) = None"
  using stack_inv_stacking [of s' s] stacking_eqD [of s' s a] by simp

lemma stack_inv_F: "stacking s' = stacking s \<Longrightarrow> stack_inv s \<Longrightarrow> stack_inv s'"
  using stack_inv_stacking [of s' s] by simp

lemma stack_inv_insert_stack:
  "stack_inv s \<Longrightarrow> stack_inv (snd (insert_stack_into_pile_after n c ia s))"
  using insert_stack_preserves [of stack_inv s n c ia 0, OF priv_unstack_card_inv stack_inv_F] by simp

lemma stack_inv_put_stack:
  "stack_inv s \<Longrightarrow> stack_inv (snd (put_stack_on_pile n c p s))"
  using put_stack_preserves [of stack_inv s n c p 0, OF priv_unstack_card_inv stack_inv_F] by simp

lemma stack_inv_remove_stack:
  "stack_inv s \<Longrightarrow> stack_inv (snd (priv_remove_stack_from_pile n c s))"
  using stacking_remove_stack [of n c s 0] stack_inv_F by blast

lemma stack_inv_unstack_all_from:
  "stack_inv s \<Longrightarrow> stack_inv (snd (unstack_all_from c s))"
  by (rule unstack_all_from_preserves [of stack_inv, OF priv_unstack_card_inv])

lemma stack_inv_stack_card_on_card:
  assumes "stack_inv s"
  shows "stack_inv (snd (stack_card_on_card n a b s))"
proof (cases "a = b")
  case True
  then show ?thesis using assms by (simp add: stack_card_on_card_def)
next
  case False
  let ?P = "\<lambda>s. stack_inv s \<and> stacked_on (cards s a) = None"
  have P1: "?P (snd (priv_unstack_card a s))"
    using assms by (simp add: priv_unstack_card_inv priv_unstack_card_self)
  have mid: "?P (snd (if truthy (pile (cards s1 b))
            then insert_stack_into_pile_after n a b s1
            else priv_remove_stack_from_pile n a s1))" if "?P s1" for s1
  proof (cases "truthy (pile (cards s1 b))")
    case True
    then show ?thesis
      using insert_stack_preserves [of ?P s1 n a b 0, OF stack_inv_unstacked_U stack_inv_unstacked_F] that
      by simp
  next
    case False
    then show ?thesis
      using that stacking_remove_stack [of n a s1 0]
        stack_inv_unstacked_F [of "snd (priv_remove_stack_from_pile n a s1)" s1 a]
      by simp
  qed
  have "stack_inv (snd (then_do (priv_unstack_card a s)
        (\<lambda>s1. then_do
           (if truthy (pile (cards s1 b))
            then insert_stack_into_pile_after n a b s1
            else priv_remove_stack_from_pile n a s1)
           (\<lambda>s2. (None, priv_stack_cards a b s2)))))"
  proof (rule then_do_preserves [where P = ?P, OF P1])
    fix s1 assume "?P s1"
    then show "stack_inv s1" by simp
  next
    fix s1 assume p1: "?P s1"
    show "stack_inv (snd (then_do
           (if truthy (pile (cards s1 b))
            then insert_stack_into_pile_after n a b s1
            else priv_remove_stack_from_pile n a s1)
           (\<lambda>s2. (None, priv_stack_cards a b s2))))"
    proof (rule then_do_preserves [where P = ?P, OF mid [OF p1]])
      fix s2 assume "?P s2"
      then show "stack_inv s2" by simp
    next
      fix s2 assume "?P s2"
      then show "stack_inv (snd (None, priv_stack_cards a b s2))"
        by (simp add: priv_stack_cards_inv)
    qed
  qed
  then show ?thesis using False by (simp add: stack_card_on_card_def)
qed

lemma stack_inv_unstack_card:
  assumes "stack_inv s"
  shows "stack_inv (snd (unstack_card n c s))"
  unfolding unstack_card_def Let_def
proof (rule then_do_preserves [where P = stack_inv])
  show "stack_inv (snd (priv_unstack_card c s))" using assms by (rule priv_unstack_card_inv)
next
  fix s1 assume "stack_inv s1"
  then show "stack_inv (snd (case stacked_on (cards s c) of None \<Rightarrow> (None, s1)
           | Some so \<Rightarrow>
               if truthy (pile (cards s c)) \<and> (case stack (cards s1 so) of None \<Rightarrow> False | Some st \<Rightarrow> length st \<noteq> 0)
               then insert_stack_into_pile_after n c so s1
               else (None, s1)))"
    by (auto simp: stack_inv_insert_stack split: option.splits)
qed simp

lemma stack_inv_remove_card:
  "stack_inv s \<Longrightarrow> stack_inv (snd (priv_remove_card_from_pile c s))"
  using stack_inv_F [OF stacking_remove_card] .

lemma then_do_inv:
  "stack_inv (snd r) \<Longrightarrow> (\<And>s. stack_inv s \<Longrightarrow> stack_inv (snd (f s)))
   \<Longrightarrow> stack_inv (snd (then_do r f))"
  by (rule then_do_preserves [where P = stack_inv])

lemma stack_inv_insert_card:
  "stack_inv s \<Longrightarrow> stack_inv (snd (insert_card_into_pile_after n c ia s))"
  unfolding insert_card_into_pile_after_def
  by (rule then_do_inv, erule priv_unstack_card_inv, rule then_do_inv,
      erule stack_inv_unstack_all_from, erule stack_inv_insert_stack)

lemma stack_inv_put_card:
  "stack_inv s \<Longrightarrow> stack_inv (snd (put_card_on_pile n c p s))"
  unfolding put_card_on_pile_def
  by (rule then_do_inv, erule priv_unstack_card_inv, rule then_do_inv,
      erule stack_inv_unstack_all_from, erule stack_inv_put_stack)

lemma stack_inv_remove_card_public:
  "stack_inv s \<Longrightarrow> stack_inv (snd (remove_card_from_pile n c s))"
  unfolding remove_card_from_pile_def
  by (rule then_do_inv, erule stack_inv_unstack_all_from, rule then_do_inv,
      erule stack_inv_unstack_card, erule stack_inv_remove_card)

lemma stack_inv_remove_stack_public:
  "stack_inv s \<Longrightarrow> stack_inv (snd (remove_stack_from_pile n c s))"
  unfolding remove_stack_from_pile_def
  by (rule then_do_inv, erule priv_unstack_card_inv, erule stack_inv_remove_stack)

lemma stack_inv_shuffle_pile:
  assumes "stack_inv s"
  shows "stack_inv (snd (shuffle_pile rnd p s))"
proof (cases "piles s p")
  case None
  then show ?thesis using assms by (simp add: shuffle_pile_def)
next
  case (Some items)
  have "stack_inv (snd (then_do (unstack_all_in items s)
            (\<lambda>s1. case piles s1 p of None \<Rightarrow> (Some TypeError, s1)
               | Some items1 \<Rightarrow>
                   (None, append_all (cards_element s1 p)
                            (fisher_yates rnd (length items1 - 1) items1)
                            (set_items p (fisher_yates rnd (length items1 - 1) items1) s1)))))"
  proof (rule then_do_preserves [where P = stack_inv])
    show "stack_inv (snd (unstack_all_in items s))"
      by (rule unstack_all_in_preserves [of stack_inv, OF priv_unstack_card_inv
            stack_inv_removeChild assms])
  next
    fix s1 assume inv1: "stack_inv s1"
    have "stack_inv (append_all n xs (set_items p xs s1))" for n xs
      by (rule stack_inv_F [OF _ inv1]) simp
    then show "stack_inv (snd (case piles s1 p of None \<Rightarrow> (Some TypeError, s1)
               | Some items1 \<Rightarrow>
                   (None, append_all (cards_element s1 p)
                            (fisher_yates rnd (length items1 - 1) items1)
                            (set_items p (fisher_yates rnd (length items1 - 1) items1) s1))))"
      using inv1 by (auto split: option.splits)
  qed simp
  then show ?thesis using Some by (simp add: shuffle_pile_def)
qed

lemma stack_inv_initial: "initial_game s \<Longrightarrow> stack_inv s"
  by (simp add: initial_game_def stack_inv_def stack_sync_def stacks_proper_def)

lemma reachable_stack_inv: "reachable s \<Longrightarrow> stack_inv s"
proof (induction rule: reachable.induct)
  case (initial s)
  then show ?case by (rule stack_inv_initial)
next
  case (flip_card s c arg)
  have "stacking (flip_card c arg s) = stacking s"
    by (cases arg) (simp_all add: flip_card_def)
  then show ?case using flip_card.IH by (rule stack_inv_F)
next
  case (create_pile s p)
  have "stacking (create_pile p s) = stacking s"
    by (simp add: create_pile_def stacking_def set_items_def)
  then show ?case using create_pile.IH by (rule stack_inv_F)
next
  case (delete_pile s p)
  from delete_pile.IH show ?case by (rule stack_inv_F [OF stacking_delete_pile])
next
  case (new_game s)
  have "stacking (new_game s) = stacking s" by (simp add: new_game_def stacking_def)
  then show ?case using new_game.IH by (rule stack_inv_F)
qed (simp_all add: stack_inv_stack_card_on_card stack_inv_insert_stack stack_inv_insert_card
    stack_inv_put_card stack_inv_remove_card_public stack_inv_remove_stack_public
    stack_inv_put_stack stack_inv_unstack_card stack_inv_unstack_all_from stack_inv_shuffle_pile)

text \<open>
  C1. In every reachable state, and so in the state after each public operation on it
  (whether it returned or threw), \<open>x.stacked_on\<close> is \<open>y\<close> exactly when \<open>y\<close> has a
  \<open>stack\<close> that contains \<open>x\<close>.
\<close>

theorem stacking_links_in_sync:
  assumes "reachable s"
  shows "stack_sync s
    \<and> stack_sync (snd (stack_card_on_card n a b s))
    \<and> stack_sync (snd (insert_stack_into_pile_after n a b s))
    \<and> stack_sync (snd (insert_card_into_pile_after n a b s))
    \<and> stack_sync (snd (put_card_on_pile n a p s))
    \<and> stack_sync (snd (put_stack_on_pile n a p s))
    \<and> stack_sync (snd (remove_card_from_pile n a s))
    \<and> stack_sync (snd (remove_stack_from_pile n a s))
    \<and> stack_sync (snd (unstack_card n a s))
    \<and> stack_sync (snd (unstack_all_from a s))
    \<and> stack_sync (snd (shuffle_pile rnd p s))"
proof -
  have inv: "stack_inv s" using assms by (rule reachable_stack_inv)
  have sync: "stack_inv t \<Longrightarrow> stack_sync t" for t by (simp add: stack_inv_def)
  show ?thesis
    by (intro conjI sync inv stack_inv_stack_card_on_card stack_inv_insert_stack
        stack_inv_insert_card stack_inv_put_card stack_inv_put_stack
        stack_inv_remove_card_public stack_inv_remove_stack_public stack_inv_unstack_card
        stack_inv_unstack_all_from stack_inv_shuffle_pile)
qed

theorem stacking_links_in_sync_witness:
  "reachable one_on_zero \<and> stack_sync one_on_zero
   \<and> stack_sync (snd (unstack_card 10 1 one_on_zero))
   \<and> stacked_on (cards one_on_zero 1) = Some 0
   \<and> stack (cards one_on_zero 0) = Some [1]"
proof -
  have "initial_game empty_game"
    by (simp add: initial_game_def empty_game_def blank_card_def)
  then have r: "reachable one_on_zero"
    unfolding one_on_zero_def by (intro reachable.stack_card_on_card reachable.initial)
  have "stacked_on (cards one_on_zero 1) = Some 0" "stack (cards one_on_zero 0) = Some [1]"
    by code_simp+
  then show ?thesis
    using r stacking_links_in_sync [OF r, of 10 1 0 "''tp''" id] by simp
qed


subsection \<open>Inserting a stack after one of its own cards\<close>

lemma has_stack_ancestor_True:
  "(x, a) \<in> (child_rel s)\<^sup>* \<Longrightarrow> \<exists>k. \<forall>n\<ge>k. has_stack_ancestor n s x a = Some True"
proof (induction rule: converse_rtrancl_induct)
  case base
  have "\<forall>n\<ge>1. has_stack_ancestor n s a a = Some True"
  proof (intro allI impI)
    fix n :: nat assume "1 \<le> n"
    then obtain m where "n = Suc m" by (cases n) auto
    then show "has_stack_ancestor n s a a = Some True" by simp
  qed
  then show ?case ..
next
  case (step x y)
  then obtain k where k: "\<forall>n\<ge>k. has_stack_ancestor n s y a = Some True" by blast
  from step.hyps(1) have so: "stacked_on (cards s x) = Some y" by (simp add: child_rel_def)
  have "\<forall>n\<ge>Suc k. has_stack_ancestor n s x a = Some True"
  proof (intro allI impI)
    fix n assume "Suc k \<le> n"
    then obtain m where m: "n = Suc m" "k \<le> m" by (cases n) auto
    then show "has_stack_ancestor n s x a = Some True" using so k by simp
  qed
  then show ?case ..
qed

lemma has_stack_ancestor_not_False:
  "(x, a) \<in> (child_rel s)\<^sup>* \<Longrightarrow> has_stack_ancestor n s x a \<noteq> Some False"
proof (induction n arbitrary: x)
  case 0
  then show ?case by simp
next
  case (Suc n)
  show ?case
  proof (cases "x = a")
    case True
    then show ?thesis by simp
  next
    case False
    with Suc.prems obtain y where y: "(x, y) \<in> child_rel s" "(y, a) \<in> (child_rel s)\<^sup>*"
      by (meson converse_rtranclE)
    then have "stacked_on (cards s x) = Some y" by (simp add: child_rel_def)
    then show ?thesis using False Suc.IH [OF y(2)] by simp
  qed
qed


text \<open>
  C3. When \<open>insert_after\<close> is \<open>card\<close> itself or is stacked, directly or through other
  cards, on \<open>card\<close>, \<open>insert_stack_into_pile_after(card, insert_after)\<close> returns without
  throwing once the recursion depth allows the walk up the \<open>stacked_on\<close> chain; it writes
  the message to the console and changes nothing else. Whatever the depth, no card and
  no pile is changed.
\<close>

theorem insert_after_own_stack_is_noop:
  assumes "(insert_after, c) \<in> (child_rel s)\<^sup>*"
  shows "(\<exists>n0. \<forall>n\<ge>n0. insert_stack_into_pile_after n c insert_after s
             = (None, s\<lparr>console := console s @ [cycle_message s c insert_after]\<rparr>))
     \<and> (\<forall>n. cards (snd (insert_stack_into_pile_after n c insert_after s)) = cards s
            \<and> piles (snd (insert_stack_into_pile_after n c insert_after s)) = piles s
            \<and> pile_groups (snd (insert_stack_into_pile_after n c insert_after s)) = pile_groups s)"
proof
  from has_stack_ancestor_True [OF assms]
  obtain k where k: "\<forall>n\<ge>k. has_stack_ancestor n s insert_after c = Some True" by blast
  have "\<forall>n\<ge>Suc k. insert_stack_into_pile_after n c insert_after s
             = (None, s\<lparr>console := console s @ [cycle_message s c insert_after]\<rparr>)"
  proof (intro allI impI)
    fix n assume "Suc k \<le> n"
    then obtain m where m: "n = Suc m" "k \<le> m" by (cases n) auto
    then show "insert_stack_into_pile_after n c insert_after s
             = (None, s\<lparr>console := console s @ [cycle_message s c insert_after]\<rparr>)"
      using k by (simp add: console_error_def)
  qed
  then show "\<exists>n0. \<forall>n\<ge>n0. insert_stack_into_pile_after n c insert_after s
             = (None, s\<lparr>console := console s @ [cycle_message s c insert_after]\<rparr>)" ..
next
  show "\<forall>n. cards (snd (insert_stack_into_pile_after n c insert_after s)) = cards s
            \<and> piles (snd (insert_stack_into_pile_after n c insert_after s)) = piles s
            \<and> pile_groups (snd (insert_stack_into_pile_after n c insert_after s)) = pile_groups s"
  proof
    fix n
    show "cards (snd (insert_stack_into_pile_after n c insert_after s)) = cards s
            \<and> piles (snd (insert_stack_into_pile_after n c insert_after s)) = piles s
            \<and> pile_groups (snd (insert_stack_into_pile_after n c insert_after s)) = pile_groups s"
    proof (cases n)
      case 0
      then show ?thesis by simp
    next
      case (Suc m)
      then show ?thesis using has_stack_ancestor_not_False [OF assms, of m]
        by (cases "has_stack_ancestor m s insert_after c") (auto simp: console_error_def)
    qed
  qed
qed

theorem insert_after_own_stack_is_noop_witness:
  "(1, 0) \<in> (child_rel one_on_zero)\<^sup>*
   \<and> cards (snd (insert_stack_into_pile_after 5 0 1 one_on_zero)) = cards one_on_zero
   \<and> piles (snd (insert_stack_into_pile_after 5 0 1 one_on_zero)) = piles one_on_zero
   \<and> fst (insert_stack_into_pile_after 5 0 1 one_on_zero) = None
   \<and> length (console (snd (insert_stack_into_pile_after 5 0 1 one_on_zero))) = 1"
proof -
  have "stacked_on (cards one_on_zero 1) = Some 0" by code_simp
  then have "(1, 0) \<in> child_rel one_on_zero" by (simp add: child_rel_def)
  then have d: "(1, 0) \<in> (child_rel one_on_zero)\<^sup>*" by (rule r_into_rtrancl)
  have e: "fst (insert_stack_into_pile_after 5 0 1 one_on_zero) = None"
    and l: "length (console (snd (insert_stack_into_pile_after 5 0 1 one_on_zero))) = 1"
    by code_simp+
  from insert_after_own_stack_is_noop [OF d]
  have "\<forall>n. cards (snd (insert_stack_into_pile_after n 0 1 one_on_zero)) = cards one_on_zero
            \<and> piles (snd (insert_stack_into_pile_after n 0 1 one_on_zero)) = piles one_on_zero
            \<and> pile_groups (snd (insert_stack_into_pile_after n 0 1 one_on_zero)) = pile_groups one_on_zero"
    by (rule conjunct2)
  then have c: "cards (snd (insert_stack_into_pile_after 5 0 1 one_on_zero)) = cards one_on_zero"
    and p: "piles (snd (insert_stack_into_pile_after 5 0 1 one_on_zero)) = piles one_on_zero"
    by blast+
  show ?thesis by (intro conjI d c p e l)
qed

subsection \<open>Shuffling a pile\<close>

lemma priv_unstack_card_ok: "stack_inv s \<Longrightarrow> fst (priv_unstack_card c s) = None"
  unfolding stack_inv_def stack_sync_def
  by (auto simp: priv_unstack_card_def update_card_def Let_def split: option.splits)

lemma priv_unstack_card_stack:
  assumes "stack_inv s" "stacked_on (cards s c) = Some so"
  shows "\<exists>st. stack (cards s so) = Some st \<and> c \<in> set st \<and>
     (\<forall>y. stack (cards (snd (priv_unstack_card c s)) y) =
        (if y = so then (if remove1 c st = [] then None else Some (remove1 c st))
         else stack (cards s y)))"
proof -
  from assms obtain st where st: "stack (cards s so) = Some st" "c \<in> set st"
    unfolding stack_inv_def stack_sync_def by blast
  then show ?thesis using assms(2)
    by (auto simp: priv_unstack_card_def update_card_def Let_def)
qed

lemma priv_unstack_card_stack_None:
  "stack (cards s y) = None \<Longrightarrow> stack (cards (snd (priv_unstack_card c s)) y) = None"
  by (auto simp: priv_unstack_card_def update_card_def Let_def split: option.splits)

lemma priv_unstack_card_placement:
  "piles (snd (priv_unstack_card c s)) = piles s
   \<and> pile_groups (snd (priv_unstack_card c s)) = pile_groups s
   \<and> (\<forall>x. pile (cards (snd (priv_unstack_card c s)) x) = pile (cards s x))"
  by (auto simp: priv_unstack_card_def update_card_def Let_def split: option.splits)

lemma priv_unstack_card_dom:
  "dom_parent (snd (priv_unstack_card c s)) = dom_parent s
   \<and> cards_element (snd (priv_unstack_card c s)) = cards_element s"
  by (auto simp: priv_unstack_card_def update_card_def Let_def split: option.splits)

lemma removeChild_placement:
  "piles (snd (removeChild c s)) = piles s
   \<and> pile_groups (snd (removeChild c s)) = pile_groups s
   \<and> cards_element (snd (removeChild c s)) = cards_element s"
  by (simp add: removeChild_def detach_element_def split: option.splits)

lemma removeChild_attached:
  "dom_parent s c \<noteq> None
   \<Longrightarrow> fst (removeChild c s) = None
     \<and> dom_parent (snd (removeChild c s)) = (dom_parent s)(c := None)"
  by (auto simp: removeChild_def detach_element_def)

lemma removeChild_detached:
  "dom_parent s c = None \<Longrightarrow> removeChild c s = (Some TypeError, s)"
  by (simp add: removeChild_def)

lemma unstack_each_ok: "stack_inv s \<Longrightarrow> fst (unstack_each xs s) = None"
proof (induction xs arbitrary: s)
  case Nil
  then show ?case by simp
next
  case (Cons x xs)
  obtain e s' where r: "priv_unstack_card x s = (e, s')" by fastforce
  have "e = None" "stack_inv s'"
    using priv_unstack_card_ok [OF Cons.prems, of x] priv_unstack_card_inv [OF Cons.prems, of x] r
    by simp_all
  then show ?case using r Cons.IH [of s'] by simp
qed

lemma unstack_each_clears:
  "stack_inv s \<Longrightarrow> stack (cards s b) = Some xs
   \<Longrightarrow> stack (cards (snd (unstack_each xs s)) b) = None"
proof (induction xs arbitrary: s)
  case Nil
  then show ?case by (auto simp: stack_inv_def stacks_proper_def)
next
  case (Cons x xs)
  obtain e s' where r: "priv_unstack_card x s = (e, s')" by fastforce
  have e: "e = None" and inv': "stack_inv s'"
    using priv_unstack_card_ok [OF Cons.prems(1), of x] priv_unstack_card_inv [OF Cons.prems(1), of x] r
    by simp_all
  have "stacked_on (cards s x) = Some b"
    using Cons.prems unfolding stack_inv_def stack_sync_def by auto
  from priv_unstack_card_stack [OF Cons.prems(1) this] Cons.prems(2) r
  have st': "stack (cards s' b) = (if xs = [] then None else Some xs)" by auto
  show ?case
  proof (cases "xs = []")
    case True
    then show ?thesis using r e st' by simp
  next
    case False
    then show ?thesis using r e st' Cons.IH [OF inv'] by simp
  qed
qed

lemma unstack_all_from_ok: "stack_inv s \<Longrightarrow> fst (unstack_all_from b s) = None"
  by (auto simp: unstack_all_from_def unstack_each_ok split: option.splits)

lemma unstack_all_from_clears:
  "stack_inv s \<Longrightarrow> stack (cards (snd (unstack_all_from b s)) b) = None"
  by (auto simp: unstack_all_from_def unstack_each_clears split: option.splits)

lemma unstack_all_from_dom:
  "dom_parent (snd (unstack_all_from b s)) = dom_parent s"
  by (rule unstack_all_from_preserves [where P = "\<lambda>t. dom_parent t = dom_parent s"])
     (simp_all add: priv_unstack_card_dom)

lemma unstack_all_in_ok:
  "stack_inv s \<Longrightarrow> distinct xs \<Longrightarrow> \<forall>c \<in> set xs. dom_parent s c \<noteq> None
   \<Longrightarrow> fst (unstack_all_in xs s) = None"
proof (induction xs arbitrary: s)
  case Nil
  then show ?case by simp
next
  case (Cons x xs)
  obtain e s' where r: "unstack_all_from x s = (e, s')" by fastforce
  have e: "e = None" and inv': "stack_inv s'"
    using unstack_all_from_ok [OF Cons.prems(1), of x]
      stack_inv_unstack_all_from [OF Cons.prems(1), of x] r
    by simp_all
  have dp': "dom_parent s' = dom_parent s" using unstack_all_from_dom [of x s] r by simp
  obtain e2 s'' where r2: "removeChild x s' = (e2, s'')" by fastforce
  have "dom_parent s' x \<noteq> None" using Cons.prems(3) dp' by simp
  from removeChild_attached [OF this] r2
  have e2: "e2 = None" and dp'': "dom_parent s'' = (dom_parent s)(x := None)"
    using dp' by simp_all
  have inv'': "stack_inv s''" using stack_inv_removeChild [OF inv', of x] r2 by simp
  have att: "\<forall>c \<in> set xs. dom_parent s'' c \<noteq> None"
    using Cons.prems(2,3) dp'' by auto
  have "distinct xs" using Cons.prems(2) by simp
  from Cons.IH [OF inv'' this att] show ?case using r e r2 e2 by simp
qed

lemma unstack_all_in_clears:
  "stack_inv s \<Longrightarrow> fst (unstack_all_in xs s) = None \<Longrightarrow> c \<in> set xs
   \<Longrightarrow> stack (cards (snd (unstack_all_in xs s)) c) = None"
proof (induction xs arbitrary: s)
  case Nil
  then show ?case by simp
next
  case (Cons x xs)
  obtain e s' where r: "unstack_all_from x s = (e, s')" by fastforce
  obtain e2 s'' where r2: "removeChild x s' = (e2, s'')" by fastforce
  have e: "e = None" using Cons.prems(2) r by (cases e) simp_all
  have e2: "e2 = None" using Cons.prems(2) r e r2 by (cases e2) simp_all
  have inv': "stack_inv s'" using stack_inv_unstack_all_from [OF Cons.prems(1), of x] r by simp
  have inv'': "stack_inv s''" using stack_inv_removeChild [OF inv', of x] r2 by simp
  have ok'': "fst (unstack_all_in xs s'') = None" using Cons.prems(2) r e r2 e2 by simp
  show ?case
  proof (cases "c \<in> set xs")
    case True
    then show ?thesis using r e r2 e2 Cons.IH [OF inv'' ok''] by simp
  next
    case False
    then have "c = x" using Cons.prems(3) by simp
    then have "stack (cards s' c) = None"
      using unstack_all_from_clears [OF Cons.prems(1), of x] r by simp
    then have "stack (cards s'' c) = None"
      using cards_removeChild [of x s'] r2 by simp
    then have "stack (cards (snd (unstack_all_in xs s'')) c) = None"
      by (rule unstack_all_in_preserves [where P = "\<lambda>s. stack (cards s c) = None", rotated 2])
         (simp_all add: priv_unstack_card_stack_None)
    then show ?thesis using r e r2 e2 by simp
  qed
qed

lemma unstack_all_in_placement:
  "piles (snd (unstack_all_in xs s)) = piles s
   \<and> pile_groups (snd (unstack_all_in xs s)) = pile_groups s
   \<and> cards_element (snd (unstack_all_in xs s)) = cards_element s
   \<and> (\<forall>x. pile (cards (snd (unstack_all_in xs s)) x) = pile (cards s x))"
  by (rule unstack_all_in_preserves
        [where P = "\<lambda>t. piles t = piles s \<and> pile_groups t = pile_groups s
             \<and> cards_element t = cards_element s
             \<and> (\<forall>x. pile (cards t x) = pile (cards s x))"])
     (simp_all add: priv_unstack_card_placement priv_unstack_card_dom removeChild_placement)

lemma piles_appendChild [simp]: "piles (appendChild n c s) = piles s"
  by (simp add: appendChild_def detach_element_def Let_def split: option.splits)

lemma piles_append_all [simp]: "piles (append_all n xs s) = piles s"
  by (induction xs arbitrary: s) simp_all

lemma mset_fisher_yates:
  "i < length xs \<Longrightarrow> mset (fisher_yates rnd i xs) = mset xs"
proof (induction i arbitrary: xs)
  case 0
  then show ?case by simp
next
  case (Suc i)
  let ?j = "rnd (Suc i) mod (Suc i + 1)"
  have "?j < Suc i + 1" by (rule mod_less_divisor) simp
  then have j: "?j < length xs" using Suc.prems by linarith
  have "mset ((xs[Suc i := xs ! ?j])[?j := xs ! Suc i]) = mset xs"
    using mset_swap [OF j Suc.prems] by simp
  moreover have "i < length ((xs[Suc i := xs ! ?j])[?j := xs ! Suc i])"
    using Suc.prems by simp
  ultimately show ?case using Suc.IH [of "(xs[Suc i := xs ! ?j])[?j := xs ! Suc i]"]
    by (simp add: Let_def)
qed

lemma mset_fisher_yates_all: "mset (fisher_yates rnd (length xs - 1) xs) = mset xs"
  by (cases "xs = []") (simp_all add: mset_fisher_yates)




end
